theory Spec2Isabelle
  imports
    Complex_Main
    "HOL-Library.AList"
    "HOL-Library.Sublist"
    "HOL-Library.Char_ord"
    "HOL-Library.List_Lexorder"
    "HOL-Library.Product_Lexorder"
    "HOL-Library.Multiset"
begin

section \<open>Strings\<close>

text \<open>
  A Python \<open>str\<close> is modelled as a \<open>string\<close>: a list of characters, each standing for one
  code point below 256. Comparison of characters and of strings is by code point and
  lexicographic, as in Python.
\<close>

text \<open>\<open>str.isspace\<close> on the code points below 256: what \<open>str.strip()\<close> removes.\<close>

definition is_space :: "char \<Rightarrow> bool" where
  "is_space c = (c \<in> set [CHR 0x09, CHR 0x0A, CHR 0x0B, CHR 0x0C, CHR 0x0D,
                           CHR 0x1C, CHR 0x1D, CHR 0x1E, CHR 0x1F, CHR 0x20,
                           CHR 0x85, CHR 0xA0])"

definition lstrip :: "string \<Rightarrow> string" where
  "lstrip s = dropWhile is_space s"

definition rstrip :: "string \<Rightarrow> string" where
  "rstrip s = rev (dropWhile is_space (rev s))"

definition strip :: "string \<Rightarrow> string" where
  "strip s = rstrip (lstrip s)"

text \<open>\<open>str.lower()\<close> on the code points below 256: the letters A-Z and the upper-case
  letters of Latin-1 (0xC0-0xDE without the multiplication sign 0xD7) move up by 32.\<close>

definition lower_char :: "char \<Rightarrow> char" where
  "lower_char c =
     (let n = (of_char c :: nat)
      in if (65 \<le> n \<and> n \<le> 90) \<or> (192 \<le> n \<and> n \<le> 222 \<and> n \<noteq> 215)
         then char_of (n + 32) else c)"

definition lower :: "string \<Rightarrow> string" where
  "lower s = map lower_char s"

section \<open>Data model\<close>

text \<open>
  The latency of a probe is a Python float: a measured number of milliseconds, or
  \<open>float('inf')\<close>. No computation of the program produces a NaN, so the floats it compares
  are linearly ordered, with infinity on top.
\<close>

datatype latency = Ms real | Infinity

instantiation latency :: linorder
begin

fun less_eq_latency :: "latency \<Rightarrow> latency \<Rightarrow> bool" where
  "less_eq_latency (Ms a) (Ms b) = (a \<le> b)"
| "less_eq_latency (Ms a) Infinity = True"
| "less_eq_latency Infinity (Ms b) = False"
| "less_eq_latency Infinity Infinity = True"

fun less_latency :: "latency \<Rightarrow> latency \<Rightarrow> bool" where
  "less_latency (Ms a) (Ms b) = (a < b)"
| "less_latency (Ms a) Infinity = True"
| "less_latency Infinity (Ms b) = False"
| "less_latency Infinity Infinity = False"

instance
proof
  fix x y z :: latency
  show "(x < y) = (x \<le> y \<and> \<not> y \<le> x)"
    by (cases x; cases y) auto
  show "x \<le> x"
    by (cases x) auto
  show "x \<le> y \<Longrightarrow> y \<le> z \<Longrightarrow> x \<le> z"
    by (cases x; cases y; cases z) auto
  show "x \<le> y \<Longrightarrow> y \<le> x \<Longrightarrow> x = y"
    by (cases x; cases y) auto
  show "x \<le> y \<or> y \<le> x"
    by (cases x; cases y) auto
qed

end

text \<open>
  The parser's channel dictionary has the keys \<open>name\<close>, \<open>url\<close>, \<open>group\<close>, \<open>logo\<close> and
  \<open>source_file\<close>; a registry entry has \<open>name\<close>, \<open>url\<close>, \<open>group\<close>, \<open>logo\<close>, \<open>ping\<close> and
  \<open>source\<close>. The four shared keys are the fields of a common record. \<open>source_file\<close> is
  optional because the registry reads it with \<open>channel.get('source_file', 'unknown')\<close>.
\<close>

record channel_info =
  name :: string
  url :: string
  group :: string
  logo :: string

record channel = channel_info +
  source_file :: "string option"

record entry = channel_info +
  ping :: latency
  source :: string

text \<open>
  The options of \<open>self.config\<close> that the modelled functions read, with the defaults of
  \<open>config.get\<close> already applied.
\<close>

record config =
  sorting :: string
  remove_duplicates :: bool
  enable_availability_check :: bool
  clean_html_files :: bool
  min_channel_name_length :: int
  backup_playlists :: bool
  max_backup_files :: int
  output_playlist :: string
  quiet_mode :: bool

text \<open>
  \<open>self.channels_db\<close> is a Python dictionary: its values are listed in the order in which
  the keys were first inserted, and assigning to a key that is present keeps the key's
  place. An association list with \<open>AList.update\<close> behaves the same way.
\<close>

type_synonym registry = "(string \<times> entry) list"

section \<open>The registry: \<open>update_channel_db\<close>\<close>

text \<open>The dictionary literal that \<open>update_channel_db\<close> stores, in both of its branches.\<close>

definition registry_entry :: "channel \<Rightarrow> latency \<Rightarrow> entry" where
  "registry_entry ch p =
     \<lparr>name = name ch, url = url ch, group = group ch, logo = logo ch,
      ping = p,
      source = (case source_file ch of Some f \<Rightarrow> f | None \<Rightarrow> ''unknown'')\<rparr>"

definition normalize :: "string \<Rightarrow> string" where
  "normalize n = strip (lower n)"

definition update_channel_db :: "config \<Rightarrow> registry \<Rightarrow> channel \<Rightarrow> latency \<Rightarrow> registry" where
  "update_channel_db cfg db ch p =
     (let channel_key = normalize (name ch)
      in if remove_duplicates cfg then
           (case map_of db channel_key of
              Some old \<Rightarrow>
                if p < ping old then AList.update channel_key (registry_entry ch p) db
                else db
            | None \<Rightarrow> AList.update channel_key (registry_entry ch p) db)
         else db)"

text \<open>
  One result of the availability probe as \<open>process_playlists\<close> consumes it:
  \<open>(channel, ping, available)\<close>. The body of its loop calls \<open>update_channel_db\<close> only for
  an available channel.
\<close>

type_synonym probe_result = "channel \<times> latency \<times> bool"

fun merge :: "config \<Rightarrow> registry \<Rightarrow> probe_result \<Rightarrow> registry" where
  "merge cfg db (ch, p, available) =
     (if available then update_channel_db cfg db ch p else db)"

definition merge_all :: "config \<Rightarrow> registry \<Rightarrow> probe_result list \<Rightarrow> registry" where
  "merge_all cfg db results = foldl (merge cfg) db results"

text \<open>The configuration that \<open>load_config\<close> writes out when no configuration file exists.\<close>

definition default_config :: config where
  "default_config =
     \<lparr>sorting = ''ping'', remove_duplicates = True, enable_availability_check = True,
      clean_html_files = True, min_channel_name_length = 3, backup_playlists = True,
      max_backup_files = 5, output_playlist = ''local_playlist.m3u'', quiet_mode = True\<rparr>"

section \<open>The availability probe: \<open>check_channel_availability\<close>\<close>

text \<open>
  What the call \<open>self.session.head(url, ...)\<close> does: it returns a response with a status
  code, and the probe then measures \<open>(time.time() - start_time) * 1000\<close>, or it raises
  (timeout, refused connection, TLS failure, ...). The elapsed milliseconds are an input from
  the environment.
\<close>

datatype head_result = Responded int real | Raised

definition check_channel_availability :: "config \<Rightarrow> head_result \<Rightarrow> channel \<Rightarrow> probe_result" where
  "check_channel_availability cfg head ch =
     (if \<not> enable_availability_check cfg then (ch, Ms 0, True)
      else case head of
             Responded status_code elapsed \<Rightarrow>
               (ch, Ms elapsed, status_code \<in> set [200, 302, 301, 307])
           | Raised \<Rightarrow> (ch, Infinity, False))"

text \<open>
  The session behind \<open>self.session.head\<close>, as \<open>setup_session\<close> builds it: an adapter with
  \<open>Retry(total = 2 if quiet_mode else 3, status_forcelist = [429, 500, 502, 503, 504])\<close>
  and \<open>HEAD\<close> among the allowed methods. One request is answered with a status code (the
  status of the last response, after redirects are followed; possibly with a \<open>Retry-After\<close>
  header), or fails at transport level (\<open>Unreachable\<close>), or fails in a way that the session
  does not retry (\<open>Refused\<close>: a URL or scheme it cannot handle, too many redirects). A
  request that fails at transport level, or is answered with a status of the list, is sent
  again while retries are left, and when none is left the session raises. By the library's
  default a response with a \<open>Retry-After\<close> header and status 413, 429 or 503 is also sent
  again while retries are left. \<open>server k\<close> is the answer to the request number \<open>k\<close>; the
  result is the status of the response that the session returns, or \<open>None\<close> when it raises.
\<close>

datatype server_answer = Status int bool | Unreachable | Refused

definition retry_total :: "config \<Rightarrow> nat" where
  "retry_total cfg = (if quiet_mode cfg then 2 else 3)"

definition status_forcelist :: "int list" where
  "status_forcelist = [429, 500, 502, 503, 504]"

fun session_request :: "(nat \<Rightarrow> server_answer) \<Rightarrow> nat \<Rightarrow> nat \<Rightarrow> int option" where
  "session_request server attempt 0 =
     (case server attempt of
        Unreachable \<Rightarrow> None
      | Refused \<Rightarrow> None
      | Status status_code retry_after \<Rightarrow>
          if status_code \<in> set status_forcelist then None else Some status_code)"
| "session_request server attempt (Suc left) =
     (case server attempt of
        Unreachable \<Rightarrow> session_request server (Suc attempt) left
      | Refused \<Rightarrow> None
      | Status status_code retry_after \<Rightarrow>
          if status_code \<in> set status_forcelist \<or>
             (retry_after \<and> status_code \<in> set [413, 429, 503])
          then session_request server (Suc attempt) left
          else Some status_code)"

text \<open>\<open>self.session.head(url, ...)\<close> with the elapsed milliseconds that the probe measures
  when the call returns.\<close>

definition session_head :: "config \<Rightarrow> (nat \<Rightarrow> server_answer) \<Rightarrow> real \<Rightarrow> head_result" where
  "session_head cfg server elapsed =
     (case session_request server 0 (retry_total cfg) of
        Some status_code \<Rightarrow> Responded status_code elapsed
      | None \<Rightarrow> Raised)"

section \<open>Sorting: \<open>sort_channels\<close>\<close>

text \<open>\<open>sorted(channels, key=...)\<close> is a stable sort, as \<open>sort_key\<close> is.\<close>

definition sort_channels :: "config \<Rightarrow> entry list \<Rightarrow> entry list" where
  "sort_channels cfg channels =
     (let method = sorting cfg
      in if method = ''ping'' then sort_key ping channels
         else if method = ''name'' then sort_key (\<lambda>x. lower (name x)) channels
         else if method = ''group'' then sort_key (\<lambda>x. (group x, lower (name x))) channels
         else sort_key ping channels)"

section \<open>More on strings\<close>

text \<open>\<open>str(n)\<close> and \<open>f'{n}'\<close> for a natural number: its decimal digits.\<close>

fun string_of_nat :: "nat \<Rightarrow> string" where
  "string_of_nat n =
     (if n < 10 then [''0123456789'' ! n]
      else string_of_nat (n div 10) @ [''0123456789'' ! (n mod 10)])"

declare string_of_nat.simps [simp del]

text \<open>\<open>s.split('\n')\<close>: the pieces between the line feeds. The result is never the empty
  list, so the last case below does not arise.\<close>

fun split_lines :: "string \<Rightarrow> string list" where
  "split_lines [] = [[]]"
| "split_lines (c # cs) =
     (if c = CHR ''\<newline>'' then [] # split_lines cs
      else (case split_lines cs of l # ls \<Rightarrow> (c # l) # ls | [] \<Rightarrow> [[c]]))"

text \<open>\<open>'\n'.join(lines)\<close>.\<close>

fun join_lines :: "string list \<Rightarrow> string" where
  "join_lines [] = []"
| "join_lines [l] = l"
| "join_lines (l # m # ls) = l @ CHR ''\<newline>'' # join_lines (m # ls)"

text \<open>\<open>sub in s\<close> for strings: \<open>sub\<close> occurs in \<open>s\<close> as a contiguous piece. \<open>s.startswith(p)\<close>
  is \<open>prefix p s\<close>.\<close>

fun contains :: "string \<Rightarrow> string \<Rightarrow> bool" where
  "contains sub [] = (sub = [])"
| "contains sub (c # cs) = (prefix sub (c # cs) \<or> contains sub cs)"

section \<open>The parser: \<open>parse_playlist\<close>\<close>

text \<open>
  \<open>extract_field\<close> is \<open>re.search(f'{field}="([^"]*)"', extinf)\<close>: the leftmost place where
  \<open>field="\<close> stands and a closing quote follows somewhere; the result is the text up to
  that next quote, or the empty string when there is no such place. The three field names of
  the program contain no character that is special in a regular expression.
\<close>

fun extract_field :: "string \<Rightarrow> string \<Rightarrow> string" where
  "extract_field [] field = []"
| "extract_field (c # cs) field =
     (let pattern = field @ [CHR ''='', CHR 0x22];
          rest = drop (length pattern) (c # cs)
      in if prefix pattern (c # cs) \<and> CHR 0x22 \<in> set rest
         then takeWhile (\<lambda>x. x \<noteq> CHR 0x22) rest
         else extract_field cs field)"

text \<open>
  \<open>re.sub(r'^["\']|["\']$', '', name)\<close> on a stripped name: a quote character at the start
  goes, and a quote character at the end goes unless it is the one already taken at the
  start.
\<close>

definition is_quote :: "char \<Rightarrow> bool" where
  "is_quote c = (c = CHR 0x22 \<or> c = CHR 0x27)"

definition unquote :: "string \<Rightarrow> string" where
  "unquote s =
     (let s1 = (case s of [] \<Rightarrow> [] | c # cs \<Rightarrow> if is_quote c then cs else s)
      in if s1 \<noteq> [] \<and> is_quote (last s1) then butlast s1 else s1)"

definition extract_name :: "string \<Rightarrow> string" where
  "extract_name extinf =
     (if CHR '','' \<in> set extinf
      then unquote (strip (rev (takeWhile (\<lambda>x. x \<noteq> CHR '','') (rev extinf))))
      else [])"

definition is_stream_url :: "string \<Rightarrow> bool" where
  "is_stream_url l =
     (prefix ''http://'' l \<or> prefix ''https://'' l \<or> prefix ''rtmp://'' l \<or> prefix ''rtsp://'' l)"

text \<open>The channel dictionary built in the body of \<open>if url_line:\<close>; \<open>src\<close> is
  \<open>os.path.basename(filepath)\<close>.\<close>

definition make_channel :: "config \<Rightarrow> string \<Rightarrow> nat \<Rightarrow> string \<Rightarrow> string \<Rightarrow> channel" where
  "make_channel cfg src channel_count extinf_line url_line =
     (let tvg_name = extract_field extinf_line ''tvg-name'';
          name0 = (if tvg_name \<noteq> [] then tvg_name else extract_name extinf_line);
          group_title = extract_field extinf_line ''group-title'';
          group0 = (if group_title \<noteq> [] then group_title else ''Other'');
          logo0 = extract_field extinf_line ''tvg-logo'';
          name1 = (if name0 = [] \<or> int (length (strip name0)) < min_channel_name_length cfg
                   then ''Channel_'' @ string_of_nat channel_count else name0)
      in \<lparr>name = strip name1, url = strip url_line, group = strip group0,
          logo = strip logo0, source_file = Some src\<rparr>)"

text \<open>
  The loop of \<open>parse_playlist\<close> over the stripped, non-empty lines, from index \<open>i\<close> on. After
  an \<open>#EXTINF:\<close> line the inner loop passes empty lines and lines that start with \<open>#\<close>; the
  line it stops at gives a channel when it starts with a stream scheme, and is passed over
  by the final \<open>i += 1\<close> in either case.
\<close>

function parse_lines :: "config \<Rightarrow> string \<Rightarrow> nat \<Rightarrow> string list \<Rightarrow> channel list" where
  "parse_lines cfg src channel_count [] = []"
| "parse_lines cfg src channel_count (line # rest) =
     (if prefix ''#EXTINF:'' line then
        (case dropWhile (\<lambda>l. l = [] \<or> prefix ''#'' l) rest of
           [] \<Rightarrow> []
         | url_line # rest' \<Rightarrow>
             if is_stream_url url_line
             then make_channel cfg src channel_count line url_line #
                  parse_lines cfg src (Suc channel_count) rest'
             else parse_lines cfg src channel_count rest')
      else parse_lines cfg src channel_count rest)"
  by pat_completeness auto
termination
proof (relation "measure (\<lambda>(cfg, src, channel_count, ls). length ls)")
  fix rest :: "string list" and url_line rest'
  assume "dropWhile (\<lambda>l. l = [] \<or> prefix ''#'' l) rest = url_line # rest'"
  then have "length (url_line # rest') \<le> length rest"
    by (metis length_dropWhile_le)
  then have shorter: "length rest' < Suc (length rest)"
    by simp
  fix cfg :: config and src :: string and channel_count :: nat and line :: string
  show "((cfg, src, Suc channel_count, rest'), cfg, src, channel_count, line # rest)
        \<in> measure (\<lambda>(cfg, src, channel_count, ls). length ls)"
    using shorter by simp
  show "((cfg, src, channel_count, rest'), cfg, src, channel_count, line # rest)
        \<in> measure (\<lambda>(cfg, src, channel_count, ls). length ls)"
    using shorter by simp
qed simp_all

definition parse_content :: "config \<Rightarrow> string \<Rightarrow> string \<Rightarrow> channel list" where
  "parse_content cfg src content =
     parse_lines cfg src 0 (map strip (filter (\<lambda>l. strip l \<noteq> []) (split_lines content)))"

section \<open>The renderer: the text that \<open>generate_playlist\<close> writes\<close>

text \<open>The loop over the sorted channels, with the variable \<open>current_group\<close>.\<close>

fun write_channels :: "string \<Rightarrow> entry list \<Rightarrow> string" where
  "write_channels current_group [] = []"
| "write_channels current_group (channel # rest) =
     (if group channel \<noteq> current_group
      then (if current_group \<noteq> [] then [CHR ''\<newline>''] else []) @
           ''#GROUP: '' @ group channel @ [CHR ''\<newline>'']
      else []) @
     ''#EXTINF:-1 tvg-id='' @ [CHR 0x22] @ name channel @ [CHR 0x22] @ '' '' @
     ''tvg-name='' @ [CHR 0x22] @ name channel @ [CHR 0x22] @ '' '' @
     ''tvg-logo='' @ [CHR 0x22] @ logo channel @ [CHR 0x22] @ '' '' @
     ''group-title='' @ [CHR 0x22] @ group channel @ [CHR 0x22] @ '','' @ name channel @
       [CHR ''\<newline>''] @
     url channel @ [CHR ''\<newline>''] @
     write_channels (if group channel \<noteq> current_group then group channel else current_group)
       rest"

text \<open>
  The whole text. The time stamp \<open>datetime.now().strftime(...)\<close> and the formatted average
  \<open>f'{average:.2f}'\<close> (floating-point arithmetic and formatting) come from outside the
  model, as the strings \<open>generated\<close> and \<open>average\<close>.
\<close>

definition playlist_text :: "string \<Rightarrow> string \<Rightarrow> entry list \<Rightarrow> string" where
  "playlist_text generated average sorted_channels =
     ''#EXTM3U'' @ [CHR ''\<newline>''] @
     ''# Generated: '' @ generated @ [CHR ''\<newline>''] @
     ''# Total channels: '' @ string_of_nat (length sorted_channels) @ [CHR ''\<newline>''] @
     ''# Average ping: '' @ average @ ''ms'' @ [CHR ''\<newline>'', CHR ''\<newline>''] @
     write_channels [] sorted_channels"

section \<open>Markup extraction: \<open>clean_html_content\<close>\<close>

text \<open>
  \<open>re.sub(pattern, '', s)\<close> for a pattern that matches no empty string: from left to right,
  a match that starts at the current place is left out and the scan goes on behind it;
  where no match starts, the character is kept. \<open>m s\<close> is the length of the match at the
  start of \<open>s\<close>, if there is one; \<open>skip\<close> counts the characters of a match still to be
  left out.
\<close>

fun remove_matches :: "(string \<Rightarrow> nat option) \<Rightarrow> nat \<Rightarrow> string \<Rightarrow> string" where
  "remove_matches m skip [] = []"
| "remove_matches m skip (c # cs) =
     (if 0 < skip then remove_matches m (skip - 1) cs
      else (case m (c # cs) of
              Some n \<Rightarrow> remove_matches m (n - 1) cs
            | None \<Rightarrow> c # remove_matches m 0 cs))"

text \<open>The index of the first occurrence of \<open>sub\<close> in a string.\<close>

fun find_sub :: "string \<Rightarrow> string \<Rightarrow> nat option" where
  "find_sub sub [] = (if sub = [] then Some 0 else None)"
| "find_sub sub (c # cs) =
     (if prefix sub (c # cs) then Some 0 else map_option Suc (find_sub sub cs))"

text \<open>
  The match of \<open><tag[^>]*>.*?</tag>\<close> (with \<open>re.DOTALL\<close>) at the start of a string:
  \<open><tag\<close>, the characters up to the first \<open>>\<close>, and from there up to the first closing
  \<open></tag>\<close>.
\<close>

definition block_match :: "string \<Rightarrow> string \<Rightarrow> nat option" where
  "block_match tag s =
     (let opening = ''<'' @ tag; closing = ''</'' @ tag @ ''>''
      in if prefix opening s then
           (let after = drop (length opening) s;
                attrs = takeWhile (\<lambda>x. x \<noteq> CHR ''>'') after;
                behind = dropWhile (\<lambda>x. x \<noteq> CHR ''>'') after
            in case behind of
                 [] \<Rightarrow> None
               | gt # body \<Rightarrow>
                   (case find_sub closing body of
                      None \<Rightarrow> None
                    | Some k \<Rightarrow>
                        Some (length opening + length attrs + 1 + k + length closing)))
         else None)"

text \<open>The match of \<open><[^>]+>\<close> at the start of a string.\<close>

definition tag_match :: "string \<Rightarrow> nat option" where
  "tag_match s =
     (case s of
        [] \<Rightarrow> None
      | c # cs \<Rightarrow>
          if c = CHR ''<'' then
            (let inner = takeWhile (\<lambda>x. x \<noteq> CHR ''>'') cs;
                 behind = dropWhile (\<lambda>x. x \<noteq> CHR ''>'') cs
             in if inner \<noteq> [] \<and> behind \<noteq> [] then Some (length inner + 2) else None)
          else None)"

text \<open>The loop over the lines, with \<open>in_m3u_section\<close> and the list \<open>m3u_lines\<close>.\<close>

fun m3u_scan :: "bool \<Rightarrow> string list \<Rightarrow> string list \<Rightarrow> string list" where
  "m3u_scan in_m3u_section m3u_lines [] = m3u_lines"
| "m3u_scan in_m3u_section m3u_lines (line # rest) =
     (if prefix ''#EXTM3U'' line then m3u_scan True (m3u_lines @ [line]) rest
      else if prefix ''#EXTINF:'' line then m3u_scan True (m3u_lines @ [line]) rest
      else if in_m3u_section \<and> prefix ''http'' line
        then m3u_scan in_m3u_section (m3u_lines @ [line]) rest
      else if in_m3u_section \<and> strip line = [] then
        (if m3u_lines \<noteq> [] \<and> \<not> prefix ''http'' (last m3u_lines)
         then m3u_scan in_m3u_section (m3u_lines @ [line]) rest
         else m3u_scan in_m3u_section m3u_lines rest)
      else if in_m3u_section \<and> \<not> prefix ''#'' line then
        (if \<not> prefix ''http'' line then m3u_scan False m3u_lines rest
         else m3u_scan in_m3u_section m3u_lines rest)
      else m3u_scan in_m3u_section m3u_lines rest)"

definition clean_html_content :: "string \<Rightarrow> string" where
  "clean_html_content content =
     (if prefix ''#EXTM3U'' (strip content) \<or> prefix ''#EXTINF:'' (strip content) then content
      else
        (let content1 = remove_matches (block_match ''script'') 0 content;
             content2 = remove_matches (block_match ''style'') 0 content1;
             content3 = remove_matches tag_match 0 content2;
             content4 = join_lines
                          (map strip (filter (\<lambda>l. strip l \<noteq> []) (split_lines content3)));
             lines = split_lines content4;
             m3u_lines = m3u_scan False [] lines
         in if m3u_lines \<noteq> [] then join_lines m3u_lines else []))"

section \<open>Files, network and one cycle of \<open>run\<close>\<close>

text \<open>
  The files the program reads and writes: a path, the text and the modification time. Every
  write is taken to succeed. The list keeps the order in which \<open>os.listdir\<close> reports them. \<open>written\<close> records every path
  that was opened for writing or was the target of a copy, in order; \<open>clock\<close> is the time
  that the next write stamps on its file.
\<close>

record stored_file =
  content :: string
  mtime :: int

record state =
  channels_db :: registry
  files :: "(string \<times> stored_file) list"
  written :: "string list"
  clock :: int

text \<open>
  What one cycle takes from outside the program: the answers of the network, the order in
  which the probes complete, and the results of library functions that the model does not
  compute (time stamps, the formatted average ping, the MD5 digest, the JSON text of the
  statistics). \<open>http_get u attempt\<close> is what \<open>self.session.get\<close> comes to in the given
  attempt of \<open>download_playlist\<close>; \<open>http_head i u\<close> is the server that answers the HEAD
  requests for the channel number \<open>i\<close>, and \<open>head_elapsed i u\<close> the milliseconds measured
  for it. \<open>completion_order\<close> stands for \<open>as_completed\<close> and is meant to permute its
  argument.
\<close>

datatype get_result = GetResponse int string | GetRaised

record env =
  http_get :: "string \<Rightarrow> nat \<Rightarrow> get_result"
  http_head :: "nat \<Rightarrow> string \<Rightarrow> nat \<Rightarrow> server_answer"
  head_elapsed :: "nat \<Rightarrow> string \<Rightarrow> real"
  completion_order :: "probe_result list \<Rightarrow> probe_result list"
  md5_hex :: "string \<Rightarrow> string"
  generated :: string
  average :: "entry list \<Rightarrow> string"
  backup_stamp :: string
  stats_json :: "entry list \<Rightarrow> string"

text \<open>\<open>with open(path, 'w') as f: f.write(text)\<close>.\<close>

definition write_file :: "string \<Rightarrow> string \<Rightarrow> state \<Rightarrow> state" where
  "write_file path text st =
     st\<lparr>files := AList.update path \<lparr>content = text, mtime = clock st\<rparr> (files st),
        written := written st @ [path],
        clock := clock st + 1\<rparr>"

text \<open>Reading a file in text mode turns \<open>\r\n\<close> and a single \<open>\r\<close> into \<open>\n\<close>.\<close>

fun universal_newlines :: "string \<Rightarrow> string" where
  "universal_newlines [] = []"
| "universal_newlines [c] = (if c = CHR 0x0D then [CHR ''\<newline>''] else [c])"
| "universal_newlines (c # d # ds) =
     (if c = CHR 0x0D \<and> d = CHR ''\<newline>'' then CHR ''\<newline>'' # universal_newlines ds
      else if c = CHR 0x0D then CHR ''\<newline>'' # universal_newlines (d # ds)
      else c # universal_newlines (d # ds))"

definition read_file :: "state \<Rightarrow> string \<Rightarrow> string option" where
  "read_file st path = map_option (\<lambda>f. universal_newlines (content f)) (map_of (files st) path)"

definition basename :: "string \<Rightarrow> string" where
  "basename path = rev (takeWhile (\<lambda>x. x \<noteq> CHR ''/'') (rev path))"

definition load_playlist_urls :: "state \<Rightarrow> string list" where
  "load_playlist_urls st =
     (case read_file st ''playlists.txt'' of
        None \<Rightarrow> []
      | Some text \<Rightarrow>
          filter (\<lambda>line. line \<noteq> [] \<and> \<not> prefix ''#'' line) (map strip (split_lines text)))"

text \<open>\<open>parse_playlist\<close>: a file that cannot be read gives the empty list.\<close>

definition parse_playlist :: "config \<Rightarrow> state \<Rightarrow> string \<Rightarrow> channel list" where
  "parse_playlist cfg st filepath =
     (case read_file st filepath of
        None \<Rightarrow> []
      | Some text \<Rightarrow> parse_content cfg (basename filepath) text)"

text \<open>
  \<open>download_playlist\<close>: the attempts \<open>0 .. max_retries - 1\<close>. An attempt that raises, gets a
  status other than 200, or gets a text without \<open>#EXTINF:\<close> (after the markup extraction,
  where that applies) goes on to the next attempt; after the last one the result is \<open>None\<close>.
\<close>

fun download_attempts ::
  "config \<Rightarrow> env \<Rightarrow> string \<Rightarrow> nat list \<Rightarrow> state \<Rightarrow> string option \<times> state" where
  "download_attempts cfg env u [] st = (None, st)"
| "download_attempts cfg env u (attempt # later) st =
     (case http_get env u attempt of
        GetRaised \<Rightarrow> download_attempts cfg env u later st
      | GetResponse status_code text \<Rightarrow>
          if status_code = 200 then
            (let markup = clean_html_files cfg \<and>
                   (contains ''<!DOCTYPE html>'' text \<or> contains ''<html'' text);
                 clean_content = clean_html_content text
             in if markup \<and> \<not> (clean_content \<noteq> [] \<and> contains ''#EXTINF:'' clean_content)
                then download_attempts cfg env u later st
                else
                  (let content = (if markup then clean_content else text)
                   in if \<not> contains ''#EXTINF:'' content
                      then download_attempts cfg env u later st
                      else
                        (let filepath = ''temp/'' @ md5_hex env u @ ''.m3u''
                         in (Some filepath, write_file filepath content st))))
          else download_attempts cfg env u later st)"

definition download_playlist :: "config \<Rightarrow> env \<Rightarrow> string \<Rightarrow> state \<Rightarrow> string option \<times> state" where
  "download_playlist cfg env u st =
     (let max_retries = (if quiet_mode cfg then 1 else 2)
      in download_attempts cfg env u [0 ..< max_retries] st)"

text \<open>The first loop of \<open>process_playlists\<close>: the paths of the lists that were fetched.\<close>

fun download_all :: "config \<Rightarrow> env \<Rightarrow> string list \<Rightarrow> state \<Rightarrow> string list \<times> state" where
  "download_all cfg env [] st = ([], st)"
| "download_all cfg env (u # us) st =
     (case download_playlist cfg env u st of
        (None, st1) \<Rightarrow> download_all cfg env us st1
      | (Some filepath, st1) \<Rightarrow>
          (case download_all cfg env us st1 of
             (downloaded_files, st2) \<Rightarrow>
               (if filepath \<noteq> [] \<and> map_of (files st1) filepath \<noteq> None
                then filepath # downloaded_files else downloaded_files, st2)))"

definition process_playlists :: "config \<Rightarrow> env \<Rightarrow> state \<Rightarrow> state" where
  "process_playlists cfg env st =
     (let playlist_urls = load_playlist_urls st
      in if playlist_urls = [] then st
         else
           (case download_all cfg env playlist_urls st of
              (downloaded_files, st1) \<Rightarrow>
                (let all_channels = concat (map (parse_playlist cfg st1) downloaded_files)
                 in if all_channels = [] then st1
                    else
                      (let futures =
                             map (\<lambda>(i, ch). check_channel_availability cfg
                                                (session_head cfg (http_head env i (url ch))
                                                   (head_elapsed env i (url ch))) ch)
                               (enumerate 0 all_channels)
                       in st1\<lparr>channels_db :=
                                merge_all cfg (channels_db st1) (completion_order env futures)\<rparr>))))"

text \<open>
  \<open>backup_playlist\<close> and \<open>cleanup_old_backups\<close>. \<open>shutil.copy2\<close> copies the text and the
  modification time; copying a file onto itself raises, which ends \<open>backup_playlist\<close>.
  The backups are ordered by modification time, and the oldest go while there are more
  than \<open>max_backup_files\<close>.
\<close>

definition is_backup_path :: "string \<Rightarrow> bool" where
  "is_backup_path path =
     (prefix ''backups/'' path \<and>
      (let f = drop (length ''backups/'') path
       in CHR ''/'' \<notin> set f \<and> prefix ''playlist_backup_'' f \<and> suffix ''.m3u'' f))"

definition cleanup_old_backups :: "config \<Rightarrow> state \<Rightarrow> state" where
  "cleanup_old_backups cfg st =
     (let backups = sort_key (\<lambda>(path, f). mtime f)
                      (filter (\<lambda>(path, f). is_backup_path path) (files st));
          old_files = map fst (take (nat (int (length backups) - max_backup_files cfg)) backups)
      in st\<lparr>files := filter (\<lambda>(path, f). path \<notin> set old_files) (files st)\<rparr>)"

definition backup_playlist :: "config \<Rightarrow> env \<Rightarrow> state \<Rightarrow> state" where
  "backup_playlist cfg env st =
     (let backup_file = ''backups/playlist_backup_'' @ backup_stamp env @ ''.m3u'';
          output_file = output_playlist cfg
      in case map_of (files st) output_file of
           None \<Rightarrow> st
         | Some f \<Rightarrow>
             if backup_file = output_file then st
             else cleanup_old_backups cfg
                    (st\<lparr>files := AList.update backup_file f (files st),
                        written := written st @ [backup_file]\<rparr>))"

definition generate_stats :: "env \<Rightarrow> entry list \<Rightarrow> state \<Rightarrow> state" where
  "generate_stats env channels st = write_file ''stats.json'' (stats_json env channels) st"

definition generate_playlist :: "config \<Rightarrow> env \<Rightarrow> state \<Rightarrow> state" where
  "generate_playlist cfg env st =
     (if channels_db st = [] then st
      else
        (let channels = map snd (channels_db st);
             sorted_channels = sort_channels cfg channels;
             st1 = (if backup_playlists cfg then backup_playlist cfg env st else st);
             output_file = output_playlist cfg;
             st2 = write_file output_file
                     (playlist_text (generated env) (average env sorted_channels) sorted_channels)
                     st1
         in generate_stats env sorted_channels st2))"

text \<open>The body of the loop of \<open>run\<close>, and a run of several cycles, each with its own
  environment.\<close>

definition run_cycle :: "config \<Rightarrow> env \<Rightarrow> state \<Rightarrow> state" where
  "run_cycle cfg env st = generate_playlist cfg env (process_playlists cfg env st)"

definition run_cycles :: "config \<Rightarrow> env list \<Rightarrow> state \<Rightarrow> state" where
  "run_cycles cfg envs st = foldl (\<lambda>s env. run_cycle cfg env s) st envs"

section \<open>Concrete inputs\<close>

text \<open>A server that gives the same answer to every request.\<close>

definition always :: "server_answer \<Rightarrow> nat \<Rightarrow> server_answer" where
  "always answer attempt = answer"

text \<open>A server that answers 503 twice and 200 from then on.\<close>

definition recovering :: "nat \<Rightarrow> server_answer" where
  "recovering attempt = (if attempt < 2 then Status 503 False else Status 200 False)"

text \<open>An environment without network: every request fails. The other fields are fixed
  strings.\<close>

definition offline_env :: env where
  "offline_env =
     \<lparr>http_get = (\<lambda>u attempt. GetRaised),
      http_head = (\<lambda>i u attempt. Unreachable),
      head_elapsed = (\<lambda>i u. 0),
      completion_order = (\<lambda>results. results),
      md5_hex = (\<lambda>u. ''d41d8cd98f00b204e9800998ecf8427e''),
      generated = ''2024-01-01 00:00:00'',
      average = (\<lambda>channels. ''10.00''),
      backup_stamp = ''20240101_000000'',
      stats_json = (\<lambda>channels. ''{}'')\<rparr>"

text \<open>A state left by an earlier cycle: one channel in the registry, the output file
  written, no \<open>playlists.txt\<close>.\<close>

definition later_cycle_state :: state where
  "later_cycle_state =
     \<lparr>channels_db =
        [(''alpha'', \<lparr>name = ''Alpha'', url = ''http://a/1'', group = ''News'', logo = '''',
                      ping = Ms 10, source = ''s.m3u''\<rparr>)],
      files = [(''local_playlist.m3u'', \<lparr>content = ''#EXTM3U'', mtime = 0\<rparr>)],
      written = [],
      clock = 7\<rparr>"

text \<open>A state with two channels in the registry and no files.\<close>

definition two_channel_state :: state where
  "two_channel_state =
     \<lparr>channels_db =
        [(''alpha'', \<lparr>name = ''Alpha'', url = ''http://a/1'', group = ''News'',
                      logo = ''http://l/a.png?x=1'', ping = Ms 30, source = ''s.m3u''\<rparr>),
         (''beta kids'', \<lparr>name = ''Beta Kids'', url = ''rtmp://b/1'', group = ''Kids'',
                          logo = [], ping = Ms 10, source = ''t.m3u''\<rparr>)],
      files = [],
      written = [],
      clock = 0\<rparr>"

text \<open>A state before the first cycle: nothing in the registry, an output file left by an
  earlier run of the program, no \<open>playlists.txt\<close>.\<close>

definition first_cycle_state :: state where
  "first_cycle_state =
     \<lparr>channels_db = [],
      files = [(''local_playlist.m3u'', \<lparr>content = ''#EXTM3U'', mtime = 0\<rparr>)],
      written = [],
      clock = 7\<rparr>"

section \<open>Notions of the specification\<close>

text \<open>An entry either stays, or gives way to one with a strictly lower ping.\<close>

definition improves :: "entry \<Rightarrow> entry \<Rightarrow> bool" where
  "improves old new = (new = old \<or> ping new < ping old)"


text \<open>
  The layout the specification describes for the channel part of the output, as a list of
  lines: a \<open>#GROUP:\<close> line wherever the group differs from the group of the channel before
  (\<open>prev\<close>; \<open>None\<close> before the first channel), and an empty line before each such marker but
  the first.
\<close>

definition extinf_line :: "entry \<Rightarrow> string" where
  "extinf_line channel =
     ''#EXTINF:-1 tvg-id='' @ [CHR 0x22] @ name channel @ [CHR 0x22] @ '' '' @
     ''tvg-name='' @ [CHR 0x22] @ name channel @ [CHR 0x22] @ '' '' @
     ''tvg-logo='' @ [CHR 0x22] @ logo channel @ [CHR 0x22] @ '' '' @
     ''group-title='' @ [CHR 0x22] @ group channel @ [CHR 0x22] @ '','' @ name channel"






section \<open>Lemmas on strings\<close>



lemma lstrip_Cons: "\<not> is_space c \<Longrightarrow> lstrip (c # s) = c # s"
  by (simp add: lstrip_def)

lemma rstrip_Cons: "\<not> is_space c \<Longrightarrow> rstrip (c # s) = c # rstrip s"
  by (simp add: rstrip_def dropWhile_append)



lemma length_rstrip: "length (rstrip s) \<le> length s"
  using length_dropWhile_le [of is_space "rev s"] by (simp add: rstrip_def)

lemma strip_fixed_hd:
  assumes "strip s = s" and "s \<noteq> []"
  shows "\<not> is_space (hd s)"
proof
  assume sp: "is_space (hd s)"
  with assms(2) have "length (lstrip s) < length s"
    by (cases s) (simp_all add: lstrip_def le_imp_less_Suc length_dropWhile_le)
  moreover have "length (strip s) \<le> length (lstrip s)"
    by (simp add: strip_def length_rstrip)
  ultimately show False using assms(1) by simp
qed






























lemma remove_matches_skip:
  "length xs \<le> n \<Longrightarrow> remove_matches m n (xs @ ys) = remove_matches m (n - length xs) ys"
proof (induction xs arbitrary: n)
  case Nil
  then show ?case by simp
next
  case (Cons x xs)
  then obtain k where n: "n = Suc k" and k: "length xs \<le> k"
    by (cases n) auto
  from Cons.IH [OF k] n show ?case by simp
qed

lemma closing_script_no_overlap:
  assumes "prefix ''</script>'' (js @ ''</script>'' @ rest)"
  shows "js = [] \<or> prefix ''</script>'' js"
proof (cases "length js < 9")
  case False
  then have "length ''</script>'' \<le> length js" by simp
  with assms have "prefix ''</script>'' js"
    by (metis prefix_length_prefix prefixI)
  then show ?thesis ..
next
  case True
  define p where "p = ''</script>''"
  have lp: "length p = 9" and p0: "p ! 0 = CHR ''<''"
    by (simp_all add: p_def)
  have inner: "p ! i \<noteq> CHR ''<''" if "0 < i" and "i < 9" for i
  proof -
    from that have "i \<in> {1, 2, 3, 4, 5, 6, 7, 8}" by auto
    then show ?thesis by (auto simp: p_def)
  qed
  show ?thesis
  proof (rule ccontr)
    assume neg: "\<not> (js = [] \<or> prefix ''</script>'' js)"
    then have pos: "0 < length js" by simp
    from assms obtain zs where zs: "js @ p @ rest = p @ zs"
      by (auto simp: prefix_def p_def)
    have "(js @ p @ rest) ! length js = p ! 0"
      using lp by (simp add: nth_append)
    with zs have "(p @ zs) ! length js = p ! 0"
      by simp
    with True lp have "p ! length js = p ! 0"
      by (simp add: nth_append)
    with inner [OF pos True] p0 show False
      by simp
  qed
qed

lemma find_sub_front: "find_sub p (p @ rest) = Some 0"
proof (cases "p @ rest")
  case Nil
  then show ?thesis by simp
next
  case (Cons c cs)
  have "prefix p (p @ rest)" by simp
  with Cons have "prefix p (c # cs)" by simp
  with Cons show ?thesis by simp
qed

lemma find_sub_behind:
  assumes "\<And>a b. prefix p (a @ p @ b) \<Longrightarrow> a = [] \<or> prefix p a"
    and "\<not> contains p js"
  shows "find_sub p (js @ p @ rest) = Some (length js)"
  using assms(2)
proof (induction js)
  case Nil
  show ?case by (simp add: find_sub_front)
next
  case (Cons c js)
  from Cons.prems have np: "\<not> prefix p (c # js)" and nc: "\<not> contains p js"
    by simp_all
  from assms(1) [of "c # js" rest] np
  have "\<not> prefix p (c # (js @ p @ rest))"
    by auto
  with Cons.IH [OF nc] show ?case
    by simp
qed

lemma find_closing_script:
  "\<not> contains ''</script>'' js \<Longrightarrow>
   find_sub ''</script>'' (js @ ''</script>'' @ rest) = Some (length js)"
  using closing_script_no_overlap by (rule find_sub_behind)


lemma block_match_None: "\<not> prefix (''<'' @ tag) s \<Longrightarrow> block_match tag s = None"
  by (simp add: block_match_def Let_def)

lemma block_match_script:
  assumes "\<not> contains ''</script>'' js"
  shows "block_match ''script'' (''<script>'' @ js @ ''</script>'' @ rest) = Some (length js + 17)"
proof -
  have "find_sub ''</script>'' (js @ ''</script>'' @ rest) = Some (length js)"
    using assms by (rule find_closing_script)
  then show ?thesis
    by (simp add: block_match_def)
qed

lemma remove_script_block:
  assumes "\<not> contains ''</script>'' js"
  shows "remove_matches (block_match ''script'') 0 (''<script>'' @ js @ ''</script>'' @ rest) =
         remove_matches (block_match ''script'') 0 rest"
proof -
  let ?m = "block_match ''script''"
  have "remove_matches ?m 0 (CHR ''<'' # (''script>'' @ js @ ''</script>'') @ rest) =
        remove_matches ?m (length js + 16) ((''script>'' @ js @ ''</script>'') @ rest)"
    using block_match_script [OF assms, of rest] by simp
  also have "\<dots> = remove_matches ?m (length js + 16 - length (''script>'' @ js @ ''</script>'')) rest"
    by (rule remove_matches_skip) simp
  also have "\<dots> = remove_matches ?m 0 rest"
    by simp
  finally show ?thesis by simp
qed

lemma clean_html_content_same:
  assumes "\<not> prefix ''#EXTM3U'' (strip a)" and "\<not> prefix ''#EXTINF:'' (strip a)"
    and "\<not> prefix ''#EXTM3U'' (strip b)" and "\<not> prefix ''#EXTINF:'' (strip b)"
    and "remove_matches (block_match ''script'') 0 a = remove_matches (block_match ''script'') 0 b"
  shows "clean_html_content a = clean_html_content b"
  using assms by (simp add: clean_html_content_def)

lemma strip_markup_start:
  "\<not> prefix ''#EXTM3U'' (strip (CHR ''<'' # s)) \<and> \<not> prefix ''#EXTINF:'' (strip (CHR ''<'' # s))"
  by (simp add: strip_def lstrip_Cons rstrip_Cons is_space_def)
section \<open>Properties of the registry\<close>

lemma update_absent:
  "map_of db k = None \<Longrightarrow> AList.update k v db = db @ [(k, v)]"
  by (induction db) (auto split: if_splits)

lemma update_channel_db_keys:
  "fst ` set db \<subseteq> fst ` set (update_channel_db cfg db ch p)"
  by (auto simp: update_channel_db_def Let_def dom_update split: option.splits)

lemma improves_refl: "improves e e"
  by (simp add: improves_def)

lemma improves_trans: "improves a b \<Longrightarrow> improves b c \<Longrightarrow> improves a c"
  by (auto simp: improves_def)

lemma improves_ping_le: "improves a b \<Longrightarrow> ping b \<le> ping a"
  by (auto simp: improves_def)

lemma update_channel_db_improves:
  assumes "map_of db k = Some e"
  shows "\<exists>e'. map_of (update_channel_db cfg db ch p) k = Some e' \<and> improves e e'"
  using assms
  by (auto simp: update_channel_db_def Let_def update_conv' improves_def
           registry_entry_def split: option.splits)

lemma merge_keys: "fst ` set db \<subseteq> fst ` set (merge cfg db r)"
  using update_channel_db_keys by (cases r) auto

lemma merge_improves:
  assumes "map_of db k = Some e"
  shows "\<exists>e'. map_of (merge cfg db r) k = Some e' \<and> improves e e'"
proof (cases r)
  case (fields ch p available)
  show ?thesis
  proof (cases available)
    case True
    with fields update_channel_db_improves [OF assms] show ?thesis by simp
  next
    case False
    with fields assms show ?thesis by (simp add: improves_refl)
  qed
qed

lemma merge_all_keys: "fst ` set db \<subseteq> fst ` set (merge_all cfg db rs)"
proof (induction rs arbitrary: db)
  case Nil
  show ?case by (simp add: merge_all_def)
next
  case (Cons r rs)
  have "fst ` set db \<subseteq> fst ` set (merge cfg db r)"
    by (rule merge_keys)
  also have "\<dots> \<subseteq> fst ` set (merge_all cfg (merge cfg db r) rs)"
    by (rule Cons.IH)
  finally show ?case by (simp add: merge_all_def)
qed

lemma merge_all_improves:
  "map_of db k = Some e \<Longrightarrow>
   \<exists>e'. map_of (merge_all cfg db rs) k = Some e' \<and> improves e e'"
proof (induction rs arbitrary: db e)
  case Nil
  then show ?case by (simp add: merge_all_def improves_refl)
next
  case (Cons r rs)
  from merge_improves [OF Cons.prems]
  obtain e1 where e1: "map_of (merge cfg db r) k = Some e1" "improves e e1"
    by blast
  from Cons.IH [OF e1(1)]
  obtain e2 where e2: "map_of (merge_all cfg (merge cfg db r) rs) k = Some e2"
    "improves e1 e2"
    by blast
  from e1(2) e2(2) have "improves e e2"
    by (rule improves_trans)
  with e2(1) show ?case by (auto simp: merge_all_def)
qed

lemma merge_all_append:
  "merge_all cfg db (rs @ rs') = merge_all cfg (merge_all cfg db rs) rs'"
  by (simp add: merge_all_def)

lemma normalize_Alpha: "normalize ''Alpha'' = ''alpha''"
  by code_simp

lemma normalize_alpha_space: "normalize ''alpha '' = ''alpha''"
  by code_simp

text \<open>
  C1. With duplicate removal enabled, a merge of \<open>(candidate, latency, alive)\<close> leaves the
  registry unchanged when \<open>alive\<close> is false. When it is true and the key
  \<open>strip (lower name)\<close> is absent, the entry built from the candidate and the latency is
  inserted under the key (at the end of the dictionary). When the key is present, the
  stored entry is replaced exactly when the new latency is strictly lower than the stored
  ping; otherwise the registry is unchanged.
\<close>

theorem merge_postcondition:
  assumes "remove_duplicates cfg"
  shows "merge cfg db (ch, p, alive) =
           (if \<not> alive then db
            else case map_of db (strip (lower (name ch))) of
                   None \<Rightarrow> db @ [(strip (lower (name ch)), registry_entry ch p)]
                 | Some old \<Rightarrow>
                     if p < ping old
                     then AList.update (strip (lower (name ch))) (registry_entry ch p) db
                     else db)"
  using assms
  by (auto simp: update_channel_db_def normalize_def Let_def update_absent
           split: option.splits)

theorem merge_postcondition_witness:
  "remove_duplicates default_config \<and>
   merge default_config []
     (\<lparr>name = ''Alpha'', url = ''http://a/1'', group = ''News'', logo = '''',
       source_file = Some ''s.m3u''\<rparr>, Ms 30, True) =
     [(''alpha'', \<lparr>name = ''Alpha'', url = ''http://a/1'', group = ''News'', logo = '''',
                  ping = Ms 30, source = ''s.m3u''\<rparr>)] \<and>
   merge default_config
     [(''alpha'', \<lparr>name = ''Alpha'', url = ''http://a/1'', group = ''News'', logo = '''',
                  ping = Ms 30, source = ''s.m3u''\<rparr>)]
     (\<lparr>name = ''Alpha'', url = ''http://a/2'', group = ''News'', logo = '''',
       source_file = Some ''s.m3u''\<rparr>, Ms 50, True) =
     [(''alpha'', \<lparr>name = ''Alpha'', url = ''http://a/1'', group = ''News'', logo = '''',
                  ping = Ms 30, source = ''s.m3u''\<rparr>)]"
proof -
  have d: "remove_duplicates default_config"
    by (simp add: default_config_def)
  have k: "strip (lower ''Alpha'') = ''alpha''"
    using normalize_Alpha by (simp add: normalize_def)
  show ?thesis
    using d
      merge_postcondition [OF d, of "[]"
        "\<lparr>name = ''Alpha'', url = ''http://a/1'', group = ''News'', logo = '''',
          source_file = Some ''s.m3u''\<rparr>" "Ms 30" True]
      merge_postcondition [OF d,
        of "[(''alpha'', \<lparr>name = ''Alpha'', url = ''http://a/1'', group = ''News'',
                          logo = '''', ping = Ms 30, source = ''s.m3u''\<rparr>)]"
        "\<lparr>name = ''Alpha'', url = ''http://a/2'', group = ''News'', logo = '''',
          source_file = Some ''s.m3u''\<rparr>" "Ms 50" True]
    by (simp add: k registry_entry_def)
qed


lemma merge_replaced:
  assumes "map_of db k = Some e" and "map_of (merge cfg db r) k = Some e'"
  shows "e' = e \<or>
         (\<exists>ch p. r = (ch, p, True) \<and> normalize (name ch) = k \<and> e' = registry_entry ch p)"
proof (cases r)
  case (fields ch p available)
  with assms show ?thesis
    by (auto simp: update_channel_db_def Let_def update_conv'
             split: if_splits option.splits)
qed

lemma merge_all_replaced:
  "map_of db k = Some e \<Longrightarrow> map_of (merge_all cfg db rs) k = Some e' \<Longrightarrow>
   e' = e \<or>
   (\<exists>ch p. (ch, p, True) \<in> set rs \<and> normalize (name ch) = k \<and> e' = registry_entry ch p)"
proof (induction rs arbitrary: e' rule: rev_induct)
  case Nil
  then show ?case by (simp add: merge_all_def)
next
  case (snoc r rs)
  from merge_all_improves [OF snoc.prems(1)]
  obtain e1 where e1: "map_of (merge_all cfg db rs) k = Some e1"
    by blast
  from snoc.prems(2) have last: "map_of (merge cfg (merge_all cfg db rs) r) k = Some e'"
    by (simp add: merge_all_def)
  from merge_replaced [OF e1 last] show ?case
  proof
    assume "e' = e1"
    with snoc.IH [OF snoc.prems(1) e1] show ?thesis by auto
  next
    assume "\<exists>ch p. r = (ch, p, True) \<and> normalize (name ch) = k \<and> e' = registry_entry ch p"
    then show ?thesis by auto
  qed
qed

text \<open>Two alive candidates with the same key and different pings: the order of the two
  merges does not matter, whatever the registry holds.\<close>

lemma update_snoc_absent:
  "map_of db k = None \<Longrightarrow> AList.update k v (db @ [(k, w)]) = db @ [(k, v)]"
  by (induction db) (auto split: if_splits)

lemma ping_registry_entry: "ping (registry_entry ch p) = p"
  by (simp add: registry_entry_def)

lemma merge_order_independent:
  assumes "normalize (name c1) = normalize (name c2)" and "p1 \<noteq> p2"
  shows "merge_all cfg db [(c1, p1, True), (c2, p2, True)] =
         merge_all cfg db [(c2, p2, True), (c1, p1, True)]"
proof (cases "remove_duplicates cfg")
  case False
  then show ?thesis
    by (simp add: merge_all_def update_channel_db_def)
next
  case True
  show ?thesis
  proof (cases "map_of db (normalize (name c2))")
    case None
    with True assms show ?thesis
      by (auto simp: merge_all_def update_channel_db_def Let_def ping_registry_entry
               update_absent update_snoc_absent map_add_def)
  next
    case (Some old)
    with True assms show ?thesis
      by (auto simp: merge_all_def update_channel_db_def Let_def update_conv'
               ping_registry_entry)
  qed
qed

text \<open>
  C5. With duplicate removal enabled, merging the alive candidates
  \<open>("Alpha", url1, ping 50)\<close> and \<open>("alpha ", url2, ping 30)\<close> into the empty registry gives,
  in either order, the single entry of the second candidate (ping 30, url2) under the key
  \<open>alpha\<close>.
\<close>

theorem dedup_order_independent:
  "merge_all (cfg\<lparr>remove_duplicates := True\<rparr>) []
     [(\<lparr>name = ''Alpha'', url = url1, group = g1, logo = l1, source_file = s1\<rparr>, Ms 50, True),
      (\<lparr>name = ''alpha '', url = url2, group = g2, logo = l2, source_file = s2\<rparr>, Ms 30, True)]
   = [(''alpha'',
       \<lparr>name = ''alpha '', url = url2, group = g2, logo = l2, ping = Ms 30,
        source = (case s2 of Some f \<Rightarrow> f | None \<Rightarrow> ''unknown'')\<rparr>)]
   \<and>
   merge_all (cfg\<lparr>remove_duplicates := True\<rparr>) []
     [(\<lparr>name = ''alpha '', url = url2, group = g2, logo = l2, source_file = s2\<rparr>, Ms 30, True),
      (\<lparr>name = ''Alpha'', url = url1, group = g1, logo = l1, source_file = s1\<rparr>, Ms 50, True)]
   = [(''alpha'',
       \<lparr>name = ''alpha '', url = url2, group = g2, logo = l2, ping = Ms 30,
        source = (case s2 of Some f \<Rightarrow> f | None \<Rightarrow> ''unknown'')\<rparr>)]"
  by (simp add: merge_all_def update_channel_db_def normalize_Alpha normalize_alpha_space
        registry_entry_def)

text \<open>
  C9. With duplicate removal disabled, \<open>update_channel_db\<close> never changes the registry:
  no candidate is inserted, and from the empty registry any number of merges of alive
  candidates leaves it empty.
\<close>

theorem no_dedup_no_insert:
  assumes "\<not> remove_duplicates cfg"
  shows "update_channel_db cfg db ch p = db \<and> merge_all cfg db rs = db \<and>
         merge_all cfg [] (map (\<lambda>(c, q). (c, q, True)) cs) = []"
proof -
  have one: "merge cfg d r = d" for d r
    using assms by (cases r) (simp add: update_channel_db_def)
  have all: "merge_all cfg d xs = d" for d xs
    by (induction xs arbitrary: d) (simp_all add: merge_all_def one)
  from assms show ?thesis
    by (simp add: update_channel_db_def all)
qed

theorem no_dedup_no_insert_witness:
  "\<not> remove_duplicates (default_config\<lparr>remove_duplicates := False\<rparr>) \<and>
   update_channel_db (default_config\<lparr>remove_duplicates := False\<rparr>) []
     \<lparr>name = ''Alpha'', url = ''http://a/1'', group = ''News'', logo = '''',
      source_file = Some ''s.m3u''\<rparr> (Ms 30) = [] \<and>
   merge_all (default_config\<lparr>remove_duplicates := False\<rparr>) []
     [(\<lparr>name = ''Alpha'', url = ''http://a/1'', group = ''News'', logo = '''',
        source_file = Some ''s.m3u''\<rparr>, Ms 30, True),
      (\<lparr>name = ''Beta'', url = ''http://b/1'', group = ''News'', logo = '''',
        source_file = Some ''s.m3u''\<rparr>, Ms 10, True)] = []"
proof -
  have d: "\<not> remove_duplicates (default_config\<lparr>remove_duplicates := False\<rparr>)"
    by simp
  show ?thesis
    using d
      no_dedup_no_insert [OF d, of "[]"
        "\<lparr>name = ''Alpha'', url = ''http://a/1'', group = ''News'', logo = '''',
          source_file = Some ''s.m3u''\<rparr>" "Ms 30"
        "[(\<lparr>name = ''Alpha'', url = ''http://a/1'', group = ''News'', logo = '''',
            source_file = Some ''s.m3u''\<rparr>, Ms 30, True),
          (\<lparr>name = ''Beta'', url = ''http://b/1'', group = ''News'', logo = '''',
            source_file = Some ''s.m3u''\<rparr>, Ms 10, True)]" "[]"]
    by simp
qed


section \<open>Properties of the probe and of the sort\<close>

lemma session_request_not_forcelist:
  "session_request server attempt left = Some s \<Longrightarrow> s \<notin> set status_forcelist"
  by (induction left arbitrary: attempt) (auto split: server_answer.splits if_splits)

lemma session_request_always_status:
  "session_request (always (Status s retry_after)) attempt left =
     (if s \<in> set status_forcelist then None else Some s)"
  by (induction left arbitrary: attempt) (auto simp: always_def)

lemma session_request_always_unreachable:
  "session_request (always Unreachable) attempt left = None"
  by (induction left arbitrary: attempt) (simp_all add: always_def)

lemma session_request_always_refused:
  "session_request (always Refused) attempt left = None"
  by (cases left) (simp_all add: always_def)

text \<open>
  C3, as the code has it. With availability checking enabled, the probe reports alive
  exactly when the session returns a response whose status is 200, 301, 302 or 307. When
  the session raises, the probe reports not alive with latency infinity: that is so for a
  transport-level failure, and also for the statuses 429, 500, 502, 503 and 504, which the
  session never returns, since on them it retries and raises when its retries are used up.
  A response with any other status gives not alive with the measured milliseconds as
  latency.
\<close>

theorem probe_classification:
  assumes "enable_availability_check cfg"
  shows "check_channel_availability cfg (session_head cfg server elapsed) ch =
           (case session_request server 0 (retry_total cfg) of
              Some s \<Rightarrow> (ch, Ms elapsed, s = 200 \<or> s = 301 \<or> s = 302 \<or> s = 307)
            | None \<Rightarrow> (ch, Infinity, False)) \<and>
         (\<forall>s. session_request server 0 (retry_total cfg) = Some s \<longrightarrow>
              s \<notin> set status_forcelist) \<and>
         check_channel_availability cfg (session_head cfg (always Unreachable) elapsed) ch =
           (ch, Infinity, False) \<and>
         check_channel_availability cfg (session_head cfg (always Refused) elapsed) ch =
           (ch, Infinity, False) \<and>
         check_channel_availability cfg
             (session_head cfg (always (Status status_code retry_after)) elapsed) ch =
           (if status_code \<in> set status_forcelist then (ch, Infinity, False)
            else (ch, Ms elapsed,
                  status_code = 200 \<or> status_code = 301 \<or> status_code = 302 \<or>
                  status_code = 307))"
proof -
  have link: "check_channel_availability cfg (session_head cfg srv elapsed) ch =
           (case session_request srv 0 (retry_total cfg) of
              Some s \<Rightarrow> (ch, Ms elapsed, s = 200 \<or> s = 301 \<or> s = 302 \<or> s = 307)
            | None \<Rightarrow> (ch, Infinity, False))" for srv
    using assms
    by (auto simp: check_channel_availability_def session_head_def split: option.splits)
  have never: "\<forall>s. session_request server 0 (retry_total cfg) = Some s \<longrightarrow>
      s \<notin> set status_forcelist"
    using session_request_not_forcelist by blast
  show ?thesis
    using link [of server] never
    by (simp add: link session_request_always_status session_request_always_unreachable
          session_request_always_refused)
qed

theorem probe_classification_witness:
  "enable_availability_check default_config \<and>
   check_channel_availability default_config
     (session_head default_config (always (Status 500 False)) 900)
     \<lparr>name = ''Alpha'', url = ''http://a/1'', group = ''News'', logo = '''',
      source_file = Some ''s.m3u''\<rparr> =
     (\<lparr>name = ''Alpha'', url = ''http://a/1'', group = ''News'', logo = '''',
       source_file = Some ''s.m3u''\<rparr>, Infinity, False) \<and>
   check_channel_availability default_config
     (session_head default_config (always (Status 301 False)) 42)
     \<lparr>name = ''Alpha'', url = ''http://a/1'', group = ''News'', logo = '''',
      source_file = Some ''s.m3u''\<rparr> =
     (\<lparr>name = ''Alpha'', url = ''http://a/1'', group = ''News'', logo = '''',
       source_file = Some ''s.m3u''\<rparr>, Ms 42, True) \<and>
   check_channel_availability default_config
     (session_head default_config recovering 900)
     \<lparr>name = ''Alpha'', url = ''http://a/1'', group = ''News'', logo = '''',
      source_file = Some ''s.m3u''\<rparr> =
     (\<lparr>name = ''Alpha'', url = ''http://a/1'', group = ''News'', logo = '''',
       source_file = Some ''s.m3u''\<rparr>, Ms 900, True)"
proof -
  have e: "enable_availability_check default_config"
    by (simp add: default_config_def)
  have r: "session_request recovering 0 (retry_total default_config) = Some 200"
    by code_simp
  have f: "(500::int) \<in> set status_forcelist" "(301::int) \<notin> set status_forcelist"
    by (simp_all add: status_forcelist_def)
  from probe_classification [OF e,
        of "recovering" 900
           "\<lparr>name = ''Alpha'', url = ''http://a/1'', group = ''News'', logo = '''',
             source_file = Some ''s.m3u''\<rparr>" 500 False]
    probe_classification [OF e,
        of "recovering" 42
           "\<lparr>name = ''Alpha'', url = ''http://a/1'', group = ''News'', logo = '''',
             source_file = Some ''s.m3u''\<rparr>" 301 False]
  show ?thesis
    using e r f by simp
qed

text \<open>
  The claim as the specification states it fails: a response with status 404 is not alive,
  and its latency is the measured 12 milliseconds, not infinity.
\<close>

theorem probe_status_404_counterexample:
  "enable_availability_check default_config \<and>
   check_channel_availability default_config
     (session_head default_config (always (Status 404 False)) 12)
     \<lparr>name = ''Alpha'', url = ''http://a/1'', group = ''News'', logo = '''',
      source_file = Some ''s.m3u''\<rparr> =
     (\<lparr>name = ''Alpha'', url = ''http://a/1'', group = ''News'', logo = '''',
       source_file = Some ''s.m3u''\<rparr>, Ms 12, False) \<and>
   Ms 12 \<noteq> Infinity"
  by (simp add: check_channel_availability_def session_head_def default_config_def
        session_request_always_status status_forcelist_def)

text \<open>
  C10. For a sorting method other than \<open>ping\<close>, \<open>name\<close> and \<open>group\<close>, \<open>sort_channels\<close> gives
  what it gives for \<open>ping\<close>: the channels in ascending order of ping.
\<close>

theorem sort_unknown_method_is_ping:
  assumes "sorting cfg \<noteq> ''ping''" and "sorting cfg \<noteq> ''name''" and "sorting cfg \<noteq> ''group''"
  shows "sort_channels cfg channels = sort_channels (cfg\<lparr>sorting := ''ping''\<rparr>) channels \<and>
         sort_channels cfg channels = sort_key ping channels \<and>
         sorted (map ping (sort_channels cfg channels)) \<and>
         mset (sort_channels cfg channels) = mset channels"
  using assms by (simp add: sort_channels_def)

theorem sort_unknown_method_is_ping_witness:
  "sorting (default_config\<lparr>sorting := ''latency''\<rparr>) \<noteq> ''ping'' \<and>
   sorting (default_config\<lparr>sorting := ''latency''\<rparr>) \<noteq> ''name'' \<and>
   sorting (default_config\<lparr>sorting := ''latency''\<rparr>) \<noteq> ''group'' \<and>
   sort_channels (default_config\<lparr>sorting := ''latency''\<rparr>)
     [\<lparr>name = ''Alpha'', url = ''http://a/1'', group = ''News'', logo = '''',
       ping = Ms 50, source = ''s.m3u''\<rparr>,
      \<lparr>name = ''Beta'', url = ''http://b/1'', group = ''Kids'', logo = '''',
       ping = Ms 30, source = ''s.m3u''\<rparr>] =
     [\<lparr>name = ''Beta'', url = ''http://b/1'', group = ''Kids'', logo = '''',
       ping = Ms 30, source = ''s.m3u''\<rparr>,
      \<lparr>name = ''Alpha'', url = ''http://a/1'', group = ''News'', logo = '''',
       ping = Ms 50, source = ''s.m3u''\<rparr>]"
proof -
  have a: "sorting (default_config\<lparr>sorting := ''latency''\<rparr>) \<noteq> ''ping''"
    and b: "sorting (default_config\<lparr>sorting := ''latency''\<rparr>) \<noteq> ''name''"
    and c: "sorting (default_config\<lparr>sorting := ''latency''\<rparr>) \<noteq> ''group''"
    by simp_all
  from sort_unknown_method_is_ping [OF a b c,
        of "[\<lparr>name = ''Alpha'', url = ''http://a/1'', group = ''News'', logo = '''',
              ping = Ms 50, source = ''s.m3u''\<rparr>,
             \<lparr>name = ''Beta'', url = ''http://b/1'', group = ''Kids'', logo = '''',
              ping = Ms 30, source = ''s.m3u''\<rparr>]"]
  have "sort_channels (default_config\<lparr>sorting := ''latency''\<rparr>)
          [\<lparr>name = ''Alpha'', url = ''http://a/1'', group = ''News'', logo = '''',
            ping = Ms 50, source = ''s.m3u''\<rparr>,
           \<lparr>name = ''Beta'', url = ''http://b/1'', group = ''Kids'', logo = '''',
            ping = Ms 30, source = ''s.m3u''\<rparr>] =
        sort_key ping
          [\<lparr>name = ''Alpha'', url = ''http://a/1'', group = ''News'', logo = '''',
            ping = Ms 50, source = ''s.m3u''\<rparr>,
           \<lparr>name = ''Beta'', url = ''http://b/1'', group = ''Kids'', logo = '''',
            ping = Ms 30, source = ''s.m3u''\<rparr>]"
    by blast
  with a b c show ?thesis
    by simp
qed

section \<open>Properties of markup extraction\<close>

text \<open>A whole page: doctype, a style block, a script of several lines with attributes,
  indentation around the three lines.\<close>

lemma markup_extraction_page:
  \<open>split_lines (clean_html_content
     (''<!DOCTYPE html>\<newline><html>\<newline><head><style type="text/css">body { color: red; }</style></head>\<newline>'' @
      ''<body>\<newline>  <script type="text/javascript">\<newline>    if (a < b) { run(); }\<newline>  </script>\<newline>  <pre>\<newline>'' @
      ''#EXTM3U\<newline>#EXTINF:-1,Test\<newline>http://x/y\<newline>  </pre>\<newline></body>\<newline></html>''))
   = [''#EXTM3U'', ''#EXTINF:-1,Test'', ''http://x/y'']\<close>
  by code_simp

text \<open>
  C6. For the document \<open><html><body><script>\<close>, a script text, \<open></script>\<close>, the three
  lines \<open>#EXTM3U\<close>, \<open>#EXTINF:-1,Test\<close>, \<open>http://x/y\<close> and \<open></body></html>\<close>,
  \<open>clean_html_content\<close> returns exactly the three lines, in order, whatever the script
  text is, as long as it does not itself contain \<open></script>\<close>.
\<close>

theorem markup_extraction:
  assumes "\<not> contains ''</script>'' js"
  shows "clean_html_content
           (''<html><body><script>'' @ js @ ''</script>'' @
            ''#EXTM3U\<newline>#EXTINF:-1,Test\<newline>http://x/y</body></html>'') =
         ''#EXTM3U\<newline>#EXTINF:-1,Test\<newline>http://x/y'' \<and>
         split_lines (clean_html_content
           (''<html><body><script>'' @ js @ ''</script>'' @
            ''#EXTM3U\<newline>#EXTINF:-1,Test\<newline>http://x/y</body></html>'')) =
         [''#EXTM3U'', ''#EXTINF:-1,Test'', ''http://x/y'']"
proof -
  let ?m = "block_match ''script''"
  let ?tail = "''#EXTM3U\<newline>#EXTINF:-1,Test\<newline>http://x/y</body></html>''"
  let ?doc = "\<lambda>js. ''<html><body>'' @ (''<script>'' @ js @ ''</script>'' @ ?tail)"
  have none: "?m (c # cs) = None" if "\<not> prefix ''<script'' (c # cs)" for c cs
    using that block_match_None [of "''script''" "c # cs"] by simp
  have pre: "remove_matches ?m 0 (?doc x) =
             ''<html><body>'' @ remove_matches ?m 0 (''<script>'' @ x @ ''</script>'' @ ?tail)" for x
    by (simp add: none)
  have e: "\<not> contains ''</script>'' []"
    by simp
  have "remove_matches ?m 0 (?doc js) = remove_matches ?m 0 (?doc [])"
    unfolding pre remove_script_block [OF assms] remove_script_block [OF e] ..
  moreover have "\<not> prefix ''#EXTM3U'' (strip (?doc x)) \<and> \<not> prefix ''#EXTINF:'' (strip (?doc x))" for x
    using strip_markup_start [of "''html><body>'' @ (''<script>'' @ x @ ''</script>'' @ ?tail)"]
    by simp
  ultimately have "clean_html_content (?doc js) = clean_html_content (?doc [])"
    by (intro clean_html_content_same) blast+
  also have "clean_html_content (?doc []) = ''#EXTM3U\<newline>#EXTINF:-1,Test\<newline>http://x/y''"
    by code_simp
  finally have r: "clean_html_content (?doc js) =
      ''#EXTM3U\<newline>#EXTINF:-1,Test\<newline>http://x/y''" .
  have "split_lines ''#EXTM3U\<newline>#EXTINF:-1,Test\<newline>http://x/y'' =
      [''#EXTM3U'', ''#EXTINF:-1,Test'', ''http://x/y'']"
    by simp
  with r show ?thesis by simp
qed

theorem markup_extraction_witness:
  "\<not> contains ''</script>'' ''...'' \<and>
   clean_html_content
     ''<html><body><script>...</script>#EXTM3U\<newline>#EXTINF:-1,Test\<newline>http://x/y</body></html>''
   = ''#EXTM3U\<newline>#EXTINF:-1,Test\<newline>http://x/y''"
proof -
  have h: "\<not> contains ''</script>'' ''...''"
    by simp
  from markup_extraction [OF h] h show ?thesis
    by simp
qed

section \<open>Properties of a cycle\<close>

lemma channels_db_write_file: "channels_db (write_file path text st) = channels_db st"
  by (simp add: write_file_def)

lemma channels_db_download_attempts:
  "channels_db (snd (download_attempts cfg env u attempts st)) = channels_db st"
  by (induction attempts)
     (auto simp: Let_def channels_db_write_file split: get_result.splits)

lemma channels_db_download_playlist:
  "download_playlist cfg env u st = (r, st1) \<Longrightarrow> channels_db st1 = channels_db st"
proof -
  assume "download_playlist cfg env u st = (r, st1)"
  then have "st1 = snd (download_attempts cfg env u [0 ..< (if quiet_mode cfg then 1 else 2)] st)"
    by (simp add: download_playlist_def Let_def)
  then show ?thesis
    by (simp only: channels_db_download_attempts)
qed

lemma channels_db_download_all:
  "download_all cfg env us st = (fs, st') \<Longrightarrow> channels_db st' = channels_db st"
proof (induction us arbitrary: st fs st')
  case Nil
  then show ?case by simp
next
  case (Cons u us)
  obtain r st1 where d: "download_playlist cfg env u st = (r, st1)"
    by (cases "download_playlist cfg env u st")
  obtain fs2 st2 where a: "download_all cfg env us st1 = (fs2, st2)"
    by (cases "download_all cfg env us st1")
  from Cons.prems d a have "st' = st2"
    by (cases r) auto
  moreover from Cons.IH [OF a] channels_db_download_playlist [OF d]
  have "channels_db st2 = channels_db st" by simp
  ultimately show ?case by simp
qed

text \<open>\<open>process_playlists\<close> changes the registry only by merging probe results.\<close>

lemma channels_db_process_playlists:
  "\<exists>rs. channels_db (process_playlists cfg env st) = merge_all cfg (channels_db st) rs"
proof (cases "load_playlist_urls st = []")
  case True
  then have "channels_db (process_playlists cfg env st) = merge_all cfg (channels_db st) []"
    by (simp add: process_playlists_def merge_all_def)
  then show ?thesis ..
next
  case False
  obtain fs st1 where d: "download_all cfg env (load_playlist_urls st) st = (fs, st1)"
    by (cases "download_all cfg env (load_playlist_urls st) st")
  from channels_db_download_all [OF d] have same: "channels_db st1 = channels_db st" .
  show ?thesis
  proof (cases "concat (map (parse_playlist cfg st1) fs) = []")
    case True
    with False d same
    have "channels_db (process_playlists cfg env st) = merge_all cfg (channels_db st) []"
      by (simp add: process_playlists_def merge_all_def)
    then show ?thesis ..
  next
    case nonempty: False
    with False d same show ?thesis
      by (auto simp: process_playlists_def Let_def)
  qed
qed

lemma channels_db_backup_playlist:
  "channels_db (backup_playlist cfg env st) = channels_db st"
  by (simp add: backup_playlist_def cleanup_old_backups_def Let_def split: option.splits)

lemma channels_db_generate_playlist:
  "channels_db (generate_playlist cfg env st) = channels_db st"
  by (simp add: generate_playlist_def generate_stats_def Let_def channels_db_write_file
        channels_db_backup_playlist)

lemma channels_db_run_cycle:
  "\<exists>rs. channels_db (run_cycle cfg env st) = merge_all cfg (channels_db st) rs"
  using channels_db_process_playlists [of cfg env st]
  by (simp add: run_cycle_def channels_db_generate_playlist)

lemma channels_db_run_cycles:
  "\<exists>rs. channels_db (run_cycles cfg envs st) = merge_all cfg (channels_db st) rs"
proof (induction envs rule: rev_induct)
  case Nil
  have "channels_db (run_cycles cfg [] st) = merge_all cfg (channels_db st) []"
    by (simp add: run_cycles_def merge_all_def)
  then show ?case ..
next
  case (snoc env envs)
  then obtain rs where rs: "channels_db (run_cycles cfg envs st) = merge_all cfg (channels_db st) rs"
    by blast
  from channels_db_run_cycle [of cfg env "run_cycles cfg envs st"]
  obtain rs' where "channels_db (run_cycle cfg env (run_cycles cfg envs st)) =
      merge_all cfg (channels_db (run_cycles cfg envs st)) rs'"
    by blast
  with rs have "channels_db (run_cycles cfg (envs @ [env]) st) =
      merge_all cfg (channels_db st) (rs @ rs')"
    by (simp add: run_cycles_def merge_all_append)
  then show ?case ..
qed

text \<open>
  C2. Through every sequence of merges, and through every sequence of cycles, a key of the
  registry stays in the registry, and the ping stored under it never increases: the entry
  either stays as it is, or is replaced by an entry of strictly lower ping, built from an
  alive probe result with the same key.
\<close>

theorem registry_invariant:
  assumes "map_of db k = Some e"
  shows "(\<exists>e'. map_of (merge_all cfg db rs) k = Some e' \<and> ping e' \<le> ping e \<and>
            (e' = e \<or>
             ping e' < ping e \<and>
             (\<exists>ch p. (ch, p, True) \<in> set rs \<and> strip (lower (name ch)) = k \<and>
                     e' = registry_entry ch p))) \<and>
         (channels_db st = db \<longrightarrow>
            (\<exists>e'. map_of (channels_db (run_cycles cfg envs st)) k = Some e' \<and>
                  ping e' \<le> ping e \<and> (e' = e \<or> ping e' < ping e)))"
proof
  from merge_all_improves [OF assms, of cfg rs]
  obtain e' where e': "map_of (merge_all cfg db rs) k = Some e'" "improves e e'"
    by blast
  from merge_all_replaced [OF assms e'(1)] e'(2)
  have "e' = e \<or>
        ping e' < ping e \<and>
        (\<exists>ch p. (ch, p, True) \<in> set rs \<and> strip (lower (name ch)) = k \<and>
                e' = registry_entry ch p)"
    by (auto simp: improves_def normalize_def)
  with e' show "\<exists>e'. map_of (merge_all cfg db rs) k = Some e' \<and> ping e' \<le> ping e \<and>
      (e' = e \<or>
       ping e' < ping e \<and>
       (\<exists>ch p. (ch, p, True) \<in> set rs \<and> strip (lower (name ch)) = k \<and>
               e' = registry_entry ch p))"
    using improves_ping_le by blast
next
  show "channels_db st = db \<longrightarrow>
          (\<exists>e'. map_of (channels_db (run_cycles cfg envs st)) k = Some e' \<and>
                ping e' \<le> ping e \<and> (e' = e \<or> ping e' < ping e))"
  proof
    assume st: "channels_db st = db"
    from channels_db_run_cycles [of cfg envs st] st
    obtain rs' where rs': "channels_db (run_cycles cfg envs st) = merge_all cfg db rs'"
      by auto
    from merge_all_improves [OF assms, of cfg rs']
    obtain e' where "map_of (merge_all cfg db rs') k = Some e'" "improves e e'"
      by blast
    with rs' show "\<exists>e'. map_of (channels_db (run_cycles cfg envs st)) k = Some e' \<and>
        ping e' \<le> ping e \<and> (e' = e \<or> ping e' < ping e)"
      using improves_ping_le by (auto simp: improves_def)
  qed
qed

theorem registry_invariant_witness:
  "map_of (channels_db later_cycle_state) ''alpha'' =
     Some \<lparr>name = ''Alpha'', url = ''http://a/1'', group = ''News'', logo = '''',
           ping = Ms 10, source = ''s.m3u''\<rparr> \<and>
   (\<exists>e'. map_of (merge_all default_config (channels_db later_cycle_state)
              [(\<lparr>name = ''ALPHA'', url = ''http://a/2'', group = ''News'', logo = '''',
                 source_file = Some ''t.m3u''\<rparr>, Ms 5, True)]) ''alpha'' = Some e' \<and>
         ping e' \<le> Ms 10) \<and>
   (\<exists>e'. map_of (channels_db (run_cycles default_config [offline_env, offline_env]
              later_cycle_state)) ''alpha'' = Some e' \<and>
         ping e' \<le> Ms 10)"
proof -
  have h: "map_of (channels_db later_cycle_state) ''alpha'' =
     Some \<lparr>name = ''Alpha'', url = ''http://a/1'', group = ''News'', logo = '''',
           ping = Ms 10, source = ''s.m3u''\<rparr>"
    by (simp add: later_cycle_state_def)
  from registry_invariant [OF h, of default_config
      "[(\<lparr>name = ''ALPHA'', url = ''http://a/2'', group = ''News'', logo = '''',
          source_file = Some ''t.m3u''\<rparr>, Ms 5, True)]"
      later_cycle_state "[offline_env, offline_env]"]
  show ?thesis
    using h by auto
qed

lemma written_backup_playlist:
  "\<exists>ws. written (backup_playlist cfg env st) = written st @ ws"
  by (simp add: backup_playlist_def cleanup_old_backups_def Let_def split: option.splits)

lemma written_generate_playlist:
  assumes "channels_db st \<noteq> []"
  shows "\<exists>ws. written (generate_playlist cfg env st) =
              written st @ ws @ [output_playlist cfg, ''stats.json'']"
proof (cases "backup_playlists cfg")
  case True
  from written_backup_playlist [of cfg env st]
  obtain ws where "written (backup_playlist cfg env st) = written st @ ws"
    by blast
  with assms True show ?thesis
    by (simp add: generate_playlist_def generate_stats_def write_file_def Let_def)
next
  case False
  with assms have "written (generate_playlist cfg env st) =
      written st @ [] @ [output_playlist cfg, ''stats.json'']"
    by (simp add: generate_playlist_def generate_stats_def write_file_def Let_def)
  then show ?thesis by blast
qed

text \<open>
  C7, as the code has it. \<open>generate_playlist\<close> returns at once, writing no file, when the
  registry holds no channel; so a cycle that leaves the registry empty does not touch the
  output file in its render step. With an empty list of source URLs \<open>process_playlists\<close>
  returns at once and changes nothing, but the cycle still calls \<open>generate_playlist\<close>:
  if the registry is empty as well, the cycle changes nothing; if the registry holds
  channels of earlier cycles, the cycle writes the output file (and the statistics).
\<close>

theorem early_return_keeps_output:
  "(channels_db st = [] \<longrightarrow> generate_playlist cfg env st = st) \<and>
   (channels_db (process_playlists cfg env st) = [] \<longrightarrow>
      run_cycle cfg env st = process_playlists cfg env st) \<and>
   (load_playlist_urls st = [] \<longrightarrow>
      process_playlists cfg env st = st \<and> run_cycle cfg env st = generate_playlist cfg env st) \<and>
   (load_playlist_urls st = [] \<and> channels_db st = [] \<longrightarrow> run_cycle cfg env st = st) \<and>
   (load_playlist_urls st = [] \<and> channels_db st \<noteq> [] \<longrightarrow>
      (\<exists>ws. written (run_cycle cfg env st) =
             written st @ ws @ [output_playlist cfg, ''stats.json'']))"
proof -
  have a: "generate_playlist cfg env s = s" if "channels_db s = []" for s
    using that by (simp add: generate_playlist_def)
  have b: "process_playlists cfg env st = st" if "load_playlist_urls st = []"
    using that by (simp add: process_playlists_def)
  show ?thesis
    using a b written_generate_playlist [of st cfg env]
    by (auto simp: run_cycle_def)
qed

theorem early_return_keeps_output_witness:
  "channels_db first_cycle_state = [] \<and> load_playlist_urls first_cycle_state = [] \<and>
   run_cycle default_config offline_env first_cycle_state = first_cycle_state \<and>
   load_playlist_urls later_cycle_state = [] \<and> channels_db later_cycle_state \<noteq> [] \<and>
   (\<exists>ws. written (run_cycle default_config offline_env later_cycle_state) =
          written later_cycle_state @ ws @ [output_playlist default_config, ''stats.json''])"
proof -
  have f: "channels_db first_cycle_state = []" "load_playlist_urls first_cycle_state = []"
    by (simp_all add: first_cycle_state_def load_playlist_urls_def read_file_def)
  have l: "load_playlist_urls later_cycle_state = []" "channels_db later_cycle_state \<noteq> []"
    by (simp_all add: later_cycle_state_def load_playlist_urls_def read_file_def)
  from early_return_keeps_output [of first_cycle_state default_config offline_env]
    early_return_keeps_output [of later_cycle_state default_config offline_env]
  show ?thesis
    using f l by blast
qed

text \<open>
  The claim as the specification states it fails: with no source URL and a registry that
  holds a channel of an earlier cycle, the cycle writes the output file anew.
\<close>

theorem empty_url_list_counterexample:
  "load_playlist_urls later_cycle_state = [] \<and>
   map_of (files later_cycle_state) (output_playlist default_config) =
     Some \<lparr>content = ''#EXTM3U'', mtime = 0\<rparr> \<and>
   written (run_cycle default_config offline_env later_cycle_state) =
     [''backups/playlist_backup_20240101_000000.m3u'', ''local_playlist.m3u'', ''stats.json''] \<and>
   map_of (files (run_cycle default_config offline_env later_cycle_state))
       (output_playlist default_config) =
     Some \<lparr>content =
             playlist_text ''2024-01-01 00:00:00'' ''10.00''
               [\<lparr>name = ''Alpha'', url = ''http://a/1'', group = ''News'', logo = '''',
                 ping = Ms 10, source = ''s.m3u''\<rparr>],
           mtime = 7\<rparr>"
  by code_simp

section \<open>Properties of the rendered text\<close>

text \<open>
  C8 at an input on which the code departs from it. A source line with
  \<open>group-title=" "\<close> gives a channel with the empty group. Sorted by ping between a channel
  of group \<open>A\<close> and one of group \<open>B\<close>, it makes the output carry the marker \<open>#GROUP: B\<close>
  directly behind a URL line, with no empty line before it.
\<close>

theorem group_marker_without_blank_line:
  \<open>parse_content default_config ''s.m3u''
     ''#EXTM3U\<newline>#EXTINF:-1 group-title=" ",Beta\<newline>http://b/1''
   = [\<lparr>name = ''Beta'', url = ''http://b/1'', group = '''', logo = '''',
       source_file = Some ''s.m3u''\<rparr>] \<and>
   split_lines (playlist_text ''2024-01-01 00:00:00'' ''2.00''
     (sort_channels default_config
       [\<lparr>name = ''Alpha'', url = ''http://a/1'', group = ''A'', logo = '''',
         ping = Ms 1, source = ''s.m3u''\<rparr>,
        \<lparr>name = ''Beta'', url = ''http://b/1'', group = '''', logo = '''',
         ping = Ms 2, source = ''s.m3u''\<rparr>,
        \<lparr>name = ''Gamma'', url = ''http://c/1'', group = ''B'', logo = '''',
         ping = Ms 3, source = ''s.m3u''\<rparr>]))
   = [''#EXTM3U'',
      ''# Generated: 2024-01-01 00:00:00'',
      ''# Total channels: 3'',
      ''# Average ping: 2.00ms'',
      '''',
      ''#GROUP: A'',
      ''#EXTINF:-1 tvg-id="Alpha" tvg-name="Alpha" tvg-logo="" group-title="A",Alpha'',
      ''http://a/1'',
      '''',
      ''#GROUP: '',
      ''#EXTINF:-1 tvg-id="Beta" tvg-name="Beta" tvg-logo="" group-title="",Beta'',
      ''http://b/1'',
      ''#GROUP: B'',
      ''#EXTINF:-1 tvg-id="Gamma" tvg-name="Gamma" tvg-logo="" group-title="B",Gamma'',
      ''http://c/1'',
      '''']\<close>
  by code_simp

section \<open>Render and parse again\<close>










text \<open>
  A carriage return inside a name is not a line break in the text, but the file is read in
  text mode: the line is cut there and the channel is lost.
\<close>

lemma carriage_return_name_lost:
  "parse_playlist default_config
     (generate_playlist default_config offline_env
        (two_channel_state\<lparr>channels_db :=
           [([CHR ''a'', CHR ''l'', CHR 0x0D, CHR ''p'', CHR ''h'', CHR ''a''],
             \<lparr>name = [CHR ''A'', CHR ''l'', CHR 0x0D, CHR ''p'', CHR ''h'', CHR ''a''],
                          url = ''http://a/1'', group = ''News'', logo = [],
                          ping = Ms 30, source = ''s.m3u''\<rparr>)]\<rparr>))
     ''local_playlist.m3u'' = []"
  by code_simp



end
